theory Spec2Isabelle
  imports Main "HOL-Library.Finite_Map" "HOL-Library.Sublist"
    "HOL-Library.List_Lexorder" "HOL-Library.Char_ord"
begin

section \<open>The file system\<close>

text \<open>
  The updater (\<^verbatim>\<open>trivy-db-updater.go\<close>) works on the host file system through the
  \<^verbatim>\<open>os\<close> package. A path is the list of its components from the root
  (\<^verbatim>\<open>/tmp/trivy_save\<close> is \<open>[''tmp'', ''trivy_save'']\<close>), and the file system is a finite
  map from paths to what is stored there: a regular file with its bytes, or a directory.
  A regular file carries one permission bit, whether this process may open it for
  reading; there are no symbolic links, no write permissions and no quotas, so removing
  and writing fail only for structural reasons (a missing parent, a directory in the
  place of a file).
\<close>

type_synonym path = "string list"

datatype inode = Reg (readable: bool) (bytes: string) | Dir

type_synonym filesys = "(path, inode) fmap"

datatype errno = ENOENT | ENOTDIR | EISDIR | EACCES | EBADF


text \<open>\<^verbatim>\<open>os.ReadFile\<close>: the bytes of a readable regular file.\<close>

definition os_ReadFile :: "filesys \<Rightarrow> path \<Rightarrow> errno + string" where
  "os_ReadFile fsys p =
     (case fmlookup fsys p of
        None \<Rightarrow> Inl ENOENT
      | Some Dir \<Rightarrow> Inl EISDIR
      | Some (Reg r b) \<Rightarrow> if r then Inr b else Inl EACCES)"

text \<open>
  \<^verbatim>\<open>os.MkdirAll\<close>: nothing to do when the path is a directory, an error when it is a
  file; otherwise the parent is made first and then the directory itself.
\<close>

function os_MkdirAll :: "filesys \<Rightarrow> path \<Rightarrow> errno option \<times> filesys" where
  "os_MkdirAll fsys p =
     (case fmlookup fsys p of
        Some Dir \<Rightarrow> (None, fsys)
      | Some (Reg r b) \<Rightarrow> (Some ENOTDIR, fsys)
      | None \<Rightarrow>
          if p = [] then (None, fmupd p Dir fsys)
          else (case os_MkdirAll fsys (butlast p) of
                  (Some err, fs1) \<Rightarrow> (Some err, fs1)
                | (None, fs1) \<Rightarrow> (None, fmupd p Dir fs1)))"
  by pat_completeness auto
termination
  by (relation "measure (\<lambda>(fsys, p). length p)") auto

declare os_MkdirAll.simps [simp del]

text \<open>
  \<^verbatim>\<open>os.RemoveAll\<close>: the path and everything below it disappears; a path that does
  not exist is no error.
\<close>

definition os_RemoveAll :: "filesys \<Rightarrow> path \<Rightarrow> errno option \<times> filesys" where
  "os_RemoveAll fsys p = (None, fmfilter (\<lambda>q. \<not> prefix p q) fsys)"

text \<open>
  \<^verbatim>\<open>os.ReadDir\<close>: the entries of a directory, sorted by file name, each with its
  name and whether it is a directory (\<^verbatim>\<open>entry.Name()\<close>, \<^verbatim>\<open>entry.IsDir()\<close>).
\<close>

definition dir_names :: "filesys \<Rightarrow> path \<Rightarrow> string list" where
  "dir_names fsys p =
     sorted_list_of_fset (last |`| ffilter (\<lambda>q. q \<noteq> [] \<and> butlast q = p) (fmdom fsys))"

definition os_ReadDir :: "filesys \<Rightarrow> path \<Rightarrow> errno + (string \<times> bool) list" where
  "os_ReadDir fsys p =
     (case fmlookup fsys p of
        None \<Rightarrow> Inl ENOENT
      | Some (Reg r b) \<Rightarrow> Inl ENOTDIR
      | Some Dir \<Rightarrow>
          Inr (map (\<lambda>name. (name, fmlookup fsys (p @ [name]) = Some Dir)) (dir_names fsys p)))"

text \<open>
  \<^verbatim>\<open>os.Open\<close> opens for reading; the handle is the path. Opening a directory
  succeeds, reading from it fails later.
\<close>

definition os_Open :: "filesys \<Rightarrow> path \<Rightarrow> errno + path" where
  "os_Open fsys p =
     (case fmlookup fsys p of
        None \<Rightarrow> Inl ENOENT
      | Some Dir \<Rightarrow> Inr p
      | Some (Reg r b) \<Rightarrow> if r then Inr p else Inl EACCES)"

text \<open>
  \<^verbatim>\<open>os.Create\<close> creates the file or truncates it. A new file belongs to this
  process and is readable.
\<close>

definition os_Create :: "filesys \<Rightarrow> path \<Rightarrow> errno option \<times> filesys" where
  "os_Create fsys p =
     (case fmlookup fsys p of
        Some Dir \<Rightarrow> (Some EISDIR, fsys)
      | Some (Reg r b) \<Rightarrow> (None, fmupd p (Reg r []) fsys)
      | None \<Rightarrow>
          if p \<noteq> [] \<and> fmlookup fsys (butlast p) = Some Dir
          then (None, fmupd p (Reg True []) fsys)
          else (Some ENOENT, fsys))"

text \<open>\<^verbatim>\<open>io.Copy(dstFile, srcFile)\<close>: everything the source holds is written to the destination.\<close>

definition io_Copy :: "filesys \<Rightarrow> path \<Rightarrow> path \<Rightarrow> errno option \<times> filesys" where
  "io_Copy fsys dstFile srcFile =
     (case fmlookup fsys srcFile of
        None \<Rightarrow> (Some EBADF, fsys)
      | Some Dir \<Rightarrow> (Some EISDIR, fsys)
      | Some (Reg r b) \<Rightarrow>
          (case fmlookup fsys dstFile of
             Some (Reg r' b') \<Rightarrow> (None, fmupd dstFile (Reg r' b) fsys)
           | _ \<Rightarrow> (Some EBADF, fsys)))"

text \<open>\<^verbatim>\<open>os.WriteFile\<close>: create or truncate, then write the data.\<close>

definition os_WriteFile :: "filesys \<Rightarrow> path \<Rightarrow> string \<Rightarrow> errno option \<times> filesys" where
  "os_WriteFile fsys p data =
     (case fmlookup fsys p of
        Some Dir \<Rightarrow> (Some EISDIR, fsys)
      | Some (Reg r b) \<Rightarrow> (None, fmupd p (Reg r data) fsys)
      | None \<Rightarrow>
          if p \<noteq> [] \<and> fmlookup fsys (butlast p) = Some Dir
          then (None, fmupd p (Reg True data) fsys)
          else (Some ENOENT, fsys))"

section \<open>Metadata, errors, the environment\<close>

text \<open>
  A \<^verbatim>\<open>time.Time\<close> is an instant, counted in nanoseconds since the Unix epoch; a
  \<^verbatim>\<open>time.Duration\<close> is a number of nanoseconds.
\<close>

type_synonym time = int

definition Hour :: int where
  "Hour = 3600 * 1000000000"

record MetadataJSON =
  Version :: int
  NextUpdate :: time
  UpdatedAt :: time
  DownloadedAt :: time

text \<open>
  Go errors. \<^verbatim>\<open>fmt.Errorf("msg: %v", err)\<close> is \<open>Wrap ''msg'' err\<close>.
\<close>

datatype error =
    Os errno
  | JSONError
  | ExitError string
  | Wrap string error

text \<open>
  What the program cannot decide by itself is the environment: the JSON codec of
  \<^verbatim>\<open>encoding/json\<close> for the metadata structure, the wall clock (the k-th call of
  \<^verbatim>\<open>time.Now\<close> returns \<open>time_Now E k\<close>), and the external tool
  \<^verbatim>\<open>trivy image --cache-dir DIR --download-db-only\<close>, which takes the file system
  to a new one and exits with status zero (\<open>None\<close>) or fails with its error output.
\<close>

record env =
  json_Unmarshal :: "string \<Rightarrow> MetadataJSON option"
  json_Marshal :: "MetadataJSON \<Rightarrow> string option"
  time_Now :: "nat \<Rightarrow> time"
  trivy :: "path \<Rightarrow> filesys \<Rightarrow> string option \<times> filesys"

text \<open>
  The lines the program prints, and the calls of the three operations of a refresh
  cycle. The calls are recorded so that a property can count them; the program itself
  never reads them.
\<close>

datatype line =
    ErrorReadingMetadata error
  | ExecutingDownload
  | ErrorBackingUp error
  | BackedUp path path
  | PrintError error
  | UpdateFailedRestoring
  | ErrorRestoring error
  | Restored path path
  | DelayNextUpdate time
  | NextUpdateAt time
  | UpdatingDB
  | UpdateComplete
  | UpToDate

datatype call = CallBackup | CallTrivy | CallRestore

record world =
  fs :: filesys
  ticks :: nat
  out :: "line list"
  calls :: "call list"

definition println :: "world \<Rightarrow> line list \<Rightarrow> world" where
  "println w ls = w\<lparr>out := out w @ ls\<rparr>"

definition now :: "env \<Rightarrow> world \<Rightarrow> time \<times> world" where
  "now E w = (time_Now E (ticks w), w\<lparr>ticks := Suc (ticks w)\<rparr>)"

section \<open>The program\<close>

definition readMetadata :: "env \<Rightarrow> filesys \<Rightarrow> path \<Rightarrow> error + MetadataJSON" where
  "readMetadata E fsys metadataPath =
     (case os_ReadFile fsys metadataPath of
        Inl err \<Rightarrow> Inl (Wrap ''failed to read metadata file'' (Os err))
      | Inr file \<Rightarrow>
          (case json_Unmarshal E file of
             None \<Rightarrow> Inl (Wrap ''failed to parse metadata JSON'' JSONError)
           | Some metadata \<Rightarrow> Inr metadata))"

text \<open>
  \<^verbatim>\<open>copyDir\<close> recurses through the file system it is changing, so the depth of the
  recursion is bounded by a number given with the call; \<open>None\<close> means that the bound
  was too small. The loop over the entries is \<open>copyEntries\<close>. Both return the file
  system as it is when they stop, with the error if there is one: a partial copy is
  not cleaned up.
\<close>

fun copyDir :: "nat \<Rightarrow> filesys \<Rightarrow> path \<Rightarrow> path \<Rightarrow> (errno option \<times> filesys) option"
  and copyEntries ::
    "nat \<Rightarrow> filesys \<Rightarrow> path \<Rightarrow> path \<Rightarrow> (string \<times> bool) list \<Rightarrow> (errno option \<times> filesys) option"
where
  "copyDir 0 fsys src dst = None"
| "copyDir (Suc n) fsys src dst =
     (case os_MkdirAll fsys dst of
        (Some err, fs1) \<Rightarrow> Some (Some err, fs1)
      | (None, fs1) \<Rightarrow>
          (case os_ReadDir fs1 src of
             Inl err \<Rightarrow> Some (Some err, fs1)
           | Inr entries \<Rightarrow> copyEntries n fs1 src dst entries))"
| "copyEntries n fsys src dst [] = Some (None, fsys)"
| "copyEntries n fsys src dst ((name, isDir) # rest) =
     (if isDir then
        (case copyDir n fsys (src @ [name]) (dst @ [name]) of
           None \<Rightarrow> None
         | Some (Some err, fs1) \<Rightarrow> Some (Some err, fs1)
         | Some (None, fs1) \<Rightarrow> copyEntries n fs1 src dst rest)
      else
        (case os_Open fsys (src @ [name]) of
           Inl err \<Rightarrow> Some (Some err, fsys)
         | Inr srcFile \<Rightarrow>
             (case os_Create fsys (dst @ [name]) of
                (Some err, fs1) \<Rightarrow> Some (Some err, fs1)
              | (None, fs1) \<Rightarrow>
                  (case io_Copy fs1 (dst @ [name]) srcFile of
                     (Some err, fs2) \<Rightarrow> Some (Some err, fs2)
                   | (None, fs2) \<Rightarrow> copyEntries n fs2 src dst rest))))"

definition backupDir :: path where
  "backupDir = [''tmp'', ''trivy_save'']"

definition backupTrivyDB :: "nat \<Rightarrow> world \<Rightarrow> path \<Rightarrow> (error option \<times> world) option" where
  "backupTrivyDB n w cacheDir =
     (let w0 = w\<lparr>calls := calls w @ [CallBackup]\<rparr>;
          fs1 = snd (os_RemoveAll (fs w0) backupDir)
      in case os_MkdirAll fs1 backupDir of
           (Some err, fs2) \<Rightarrow>
             Some (Some (Wrap ''failed to create backup directory'' (Os err)), w0\<lparr>fs := fs2\<rparr>)
         | (None, fs2) \<Rightarrow>
             (case copyDir n fs2 cacheDir backupDir of
                None \<Rightarrow> None
              | Some (Some err, fs3) \<Rightarrow>
                  Some (Some (Wrap ''failed to copy directory'' (Os err)), w0\<lparr>fs := fs3\<rparr>)
              | Some (None, fs3) \<Rightarrow>
                  Some (None, println (w0\<lparr>fs := fs3\<rparr>) [BackedUp cacheDir backupDir])))"

definition updateMetadataNextUpdate :: "env \<Rightarrow> world \<Rightarrow> path \<Rightarrow> error option \<times> world" where
  "updateMetadataNextUpdate E w metadataPath =
     (case readMetadata E (fs w) metadataPath of
        Inl err \<Rightarrow> (Some err, w)
      | Inr metadata0 \<Rightarrow>
          (let (t, w1) = now E w;
               metadata = metadata0\<lparr>NextUpdate := t + 4 * Hour\<rparr>
           in case json_Marshal E metadata of
                None \<Rightarrow> (Some (Wrap ''failed to marshal updated metadata'' JSONError), w1)
              | Some updatedData \<Rightarrow>
                  (case os_WriteFile (fs w1) metadataPath updatedData of
                     (Some err, fs1) \<Rightarrow>
                       (Some (Wrap ''failed to write updated metadata'' (Os err)), w1\<lparr>fs := fs1\<rparr>)
                   | (None, fs1) \<Rightarrow>
                       (None, println (w1\<lparr>fs := fs1\<rparr>) [DelayNextUpdate (NextUpdate metadata)]))))"

definition restoreTrivyDB :: "env \<Rightarrow> nat \<Rightarrow> world \<Rightarrow> path \<Rightarrow> (error option \<times> world) option" where
  "restoreTrivyDB E n w cacheDir =
     (let w0 = w\<lparr>calls := calls w @ [CallRestore]\<rparr>
      in case os_RemoveAll (fs w0) cacheDir of
           (Some err, fs1) \<Rightarrow>
             Some (Some (Wrap ''failed to remove current directory'' (Os err)), w0\<lparr>fs := fs1\<rparr>)
         | (None, fs1) \<Rightarrow>
             (case copyDir n fs1 backupDir cacheDir of
                None \<Rightarrow> None
              | Some (Some err, fs2) \<Rightarrow>
                  Some (Some (Wrap ''failed to restore from backup'' (Os err)), w0\<lparr>fs := fs2\<rparr>)
              | Some (None, fs2) \<Rightarrow>
                  (case updateMetadataNextUpdate E (w0\<lparr>fs := fs2\<rparr>)
                          (cacheDir @ [''db'', ''metadata.json'']) of
                     (Some err, w1) \<Rightarrow>
                       Some (Some (Wrap ''failed to update metadata timestamp'' err), w1)
                   | (None, w1) \<Rightarrow>
                       Some (None, println w1 [Restored cacheDir backupDir]))))"

definition runTrivyUpdateCommand :: "env \<Rightarrow> world \<Rightarrow> path \<Rightarrow> error option \<times> world" where
  "runTrivyUpdateCommand E w cacheDir =
     (let w0 = w\<lparr>calls := calls w @ [CallTrivy]\<rparr>
      in case trivy E cacheDir (fs w0) of
           (Some stderr, fs1) \<Rightarrow>
             (Some (Wrap ''trivy command failed'' (ExitError stderr)), w0\<lparr>fs := fs1\<rparr>)
         | (None, fs1) \<Rightarrow> (None, w0\<lparr>fs := fs1\<rparr>))"

text \<open>
  \<^verbatim>\<open>main\<close>, for the cache directory given by the flag. The source writes the
  refresh twice, once for unreadable metadata and once for metadata that is due, and so
  does the model.
\<close>

definition main :: "env \<Rightarrow> nat \<Rightarrow> world \<Rightarrow> path \<Rightarrow> world option" where
  "main E n w cacheDir =
     (let metadataFile = cacheDir @ [''db'', ''metadata.json'']
      in case readMetadata E (fs w) metadataFile of
           Inl err \<Rightarrow>
             (let w1 = println w [ErrorReadingMetadata err, ExecutingDownload]
              in case backupTrivyDB n w1 cacheDir of
                   None \<Rightarrow> None
                 | Some (Some berr, w2) \<Rightarrow> Some (println w2 [ErrorBackingUp berr])
                 | Some (None, w2) \<Rightarrow>
                     (case runTrivyUpdateCommand E w2 cacheDir of
                        (Some terr, w3) \<Rightarrow>
                          (case restoreTrivyDB E n
                                  (println w3 [PrintError terr, UpdateFailedRestoring]) cacheDir of
                             None \<Rightarrow> None
                           | Some (Some restoreErr, w4) \<Rightarrow>
                               Some (println w4 [ErrorRestoring restoreErr])
                           | Some (None, w4) \<Rightarrow> Some w4)
                      | (None, w3) \<Rightarrow>
                          (case readMetadata E (fs w3) metadataFile of
                             Inr newMetadata \<Rightarrow>
                               Some (println w3 [NextUpdateAt (NextUpdate newMetadata)])
                           | Inl err2 \<Rightarrow> Some w3)))
         | Inr metadata \<Rightarrow>
             (let (t, w0) = now E w
              in if t > NextUpdate metadata then
                   (let w1 = println w0 [UpdatingDB]
                    in case backupTrivyDB n w1 cacheDir of
                         None \<Rightarrow> None
                       | Some (Some berr, w2) \<Rightarrow> Some (println w2 [ErrorBackingUp berr])
                       | Some (None, w2) \<Rightarrow>
                           (case runTrivyUpdateCommand E w2 cacheDir of
                              (Some terr, w3) \<Rightarrow>
                                (case restoreTrivyDB E n
                                        (println w3 [PrintError terr, UpdateFailedRestoring])
                                        cacheDir of
                                   None \<Rightarrow> None
                                 | Some (Some restoreErr, w4) \<Rightarrow>
                                     Some (println w4 [ErrorRestoring restoreErr])
                                 | Some (None, w4) \<Rightarrow> Some w4)
                            | (None, w3) \<Rightarrow>
                                (let w4 = println w3 [UpdateComplete]
                                 in case readMetadata E (fs w4) metadataFile of
                                      Inr newMetadata \<Rightarrow>
                                        Some (println w4 [NextUpdateAt (NextUpdate newMetadata)])
                                    | Inl err2 \<Rightarrow> Some w4)))
                 else
                   Some (println w0 [UpToDate, NextUpdateAt (NextUpdate metadata)])))"

section \<open>Notions for stating what a copy does\<close>

text \<open>
  Two paths are separate when neither lies below the other. \<open>wf_below\<close> is well-formedness
  of the tree below a path, \<open>fresh_below\<close> says that nothing exists below a path, and
  \<open>copyable n\<close> that a tree has fewer than \<open>n\<close> nested directories and no unreadable file.
  \<open>entries_ok\<close> is what the loop of \<^verbatim>\<open>copyDir\<close> may rely on for the entries still to copy;
  \<open>dir_post\<close> and \<open>entries_post\<close> describe the outcome of \<^verbatim>\<open>copyDir\<close> and of its loop.
\<close>

definition separate :: "path \<Rightarrow> path \<Rightarrow> bool" where
  "separate a b \<longleftrightarrow> \<not> prefix a b \<and> \<not> prefix b a"


definition fresh_below :: "filesys \<Rightarrow> path \<Rightarrow> bool" where
  "fresh_below fsys p \<longleftrightarrow> (\<forall>q. q \<noteq> [] \<longrightarrow> fmlookup fsys (p @ q) = None)"


text \<open>\<open>shallow n\<close>: a tree has fewer than \<open>n\<close> nested directories.\<close>

definition shallow :: "nat \<Rightarrow> filesys \<Rightarrow> path \<Rightarrow> bool" where
  "shallow n fsys p \<longleftrightarrow> (\<forall>q. fmlookup fsys (p @ q) = Some Dir \<longrightarrow> length q < n)"




text \<open>
  \<^verbatim>\<open>main\<close> starts a refresh when the metadata cannot be read or when the clock is
  after its \<open>NextUpdate\<close> (\<open>refresh_due\<close>). \<open>refresh_intro\<close> is the world at that moment:
  the lines announcing the refresh printed and, when the metadata was read, the clock
  read once. \<open>success_lines\<close> is what \<^verbatim>\<open>main\<close> prints after a successful run of the
  tool.
\<close>

definition refresh_due :: "env \<Rightarrow> world \<Rightarrow> path \<Rightarrow> bool" where
  "refresh_due E w cacheDir \<longleftrightarrow>
     (case readMetadata E (fs w) (cacheDir @ [''db'', ''metadata.json'']) of
        Inl err \<Rightarrow> True
      | Inr metadata \<Rightarrow> NextUpdate metadata < time_Now E (ticks w))"

definition refresh_intro :: "env \<Rightarrow> world \<Rightarrow> path \<Rightarrow> world" where
  "refresh_intro E w cacheDir =
     (case readMetadata E (fs w) (cacheDir @ [''db'', ''metadata.json'']) of
        Inl err \<Rightarrow> println w [ErrorReadingMetadata err, ExecutingDownload]
      | Inr metadata \<Rightarrow> println (snd (now E w)) [UpdatingDB])"

definition success_lines :: "env \<Rightarrow> world \<Rightarrow> filesys \<Rightarrow> path \<Rightarrow> line list" where
  "success_lines E w fsys cacheDir =
     (case readMetadata E (fs w) (cacheDir @ [''db'', ''metadata.json'']) of
        Inl err \<Rightarrow> [] | Inr metadata \<Rightarrow> [UpdateComplete]) @
     (case readMetadata E fsys (cacheDir @ [''db'', ''metadata.json'']) of
        Inl err \<Rightarrow> [] | Inr newMetadata \<Rightarrow> [NextUpdateAt (NextUpdate newMetadata)])"

text \<open>
  The write half of \<^verbatim>\<open>updateMetadataNextUpdate\<close> (marshal the record, write the file),
  named so that reading and writing can be composed.
\<close>

definition writeMetadata :: "env \<Rightarrow> filesys \<Rightarrow> path \<Rightarrow> MetadataJSON \<Rightarrow> error option \<times> filesys" where
  "writeMetadata E fsys metadataPath metadata =
     (case json_Marshal E metadata of
        None \<Rightarrow> (Some (Wrap ''failed to marshal updated metadata'' JSONError), fsys)
      | Some updatedData \<Rightarrow>
          (case os_WriteFile fsys metadataPath updatedData of
             (Some err, fs1) \<Rightarrow> (Some (Wrap ''failed to write updated metadata'' (Os err)), fs1)
           | (None, fs1) \<Rightarrow> (None, fs1)))"

section \<open>A concrete installation\<close>

text \<open>
  A cache directory \<^verbatim>\<open>/tmp/trivy\<close> as Trivy leaves it, three metadata documents with the
  records \<^verbatim>\<open>encoding/json\<close> reads from them, three clocks, and three behaviours of the
  external tool. The documents end with the line feed that Trivy writes.
\<close>

definition cache0 :: path where
  "cache0 = [''tmp'', ''trivy'']"

definition meta0 :: path where
  "meta0 = [''tmp'', ''trivy'', ''db'', ''metadata.json'']"

definition doc1 :: string where
  "doc1 = ''{\"Version\":2,\"NextUpdate\":\"2024-01-01T06:00:00Z\",\"UpdatedAt\":\"2024-01-01T00:00:00Z\",\"DownloadedAt\":\"2024-01-01T00:05:00Z\"}''"

definition rec1 :: MetadataJSON where
  "rec1 = \<lparr>Version = 2, NextUpdate = 1704088800000000000,
            UpdatedAt = 1704067200000000000, DownloadedAt = 1704067500000000000\<rparr>"

definition doc2 :: string where
  "doc2 = ''{\"Version\":2,\"NextUpdate\":\"2024-01-02T04:00:01Z\",\"UpdatedAt\":\"2024-01-01T00:00:00Z\",\"DownloadedAt\":\"2024-01-01T00:05:00Z\"}''"

definition rec2 :: MetadataJSON where
  "rec2 = \<lparr>Version = 2, NextUpdate = 1704168001000000000,
            UpdatedAt = 1704067200000000000, DownloadedAt = 1704067500000000000\<rparr>"

definition doc3 :: string where
  "doc3 = ''{\"Version\":2,\"NextUpdate\":\"2024-01-03T00:00:00Z\",\"UpdatedAt\":\"2024-01-02T00:00:00Z\",\"DownloadedAt\":\"2024-01-02T00:00:05Z\"}''"

definition rec3 :: MetadataJSON where
  "rec3 = \<lparr>Version = 2, NextUpdate = 1704240000000000000,
            UpdatedAt = 1704153600000000000, DownloadedAt = 1704153605000000000\<rparr>"

definition demo_Unmarshal :: "string \<Rightarrow> MetadataJSON option" where
  "demo_Unmarshal s =
     (if s = doc1 \<or> s = doc1 @ [CHR 0x0A] then Some rec1
      else if s = doc2 \<or> s = doc2 @ [CHR 0x0A] then Some rec2
      else if s = doc3 \<or> s = doc3 @ [CHR 0x0A] then Some rec3
      else None)"

definition demo_Marshal :: "MetadataJSON \<Rightarrow> string option" where
  "demo_Marshal m =
     (if m = rec1 then Some doc1 else if m = rec2 then Some doc2
      else if m = rec3 then Some doc3 else None)"

definition demo_env :: "(nat \<Rightarrow> time) \<Rightarrow> (path \<Rightarrow> filesys \<Rightarrow> string option \<times> filesys) \<Rightarrow> env" where
  "demo_env clk tool =
     \<lparr>json_Unmarshal = demo_Unmarshal, json_Marshal = demo_Marshal, time_Now = clk, trivy = tool\<rparr>"

definition clock_due :: "nat \<Rightarrow> time" where
  "clock_due k = 1704153600000000000 + int k * 1000000000"

definition clock_early :: "nat \<Rightarrow> time" where
  "clock_early k = 1704085200000000000"


definition tool_fail :: "path \<Rightarrow> filesys \<Rightarrow> string option \<times> filesys" where
  "tool_fail c fsys =
     (Some ''FATAL failed to download vulnerability DB'',
      fmupd (c @ [''db'', ''trivy.db'']) (Reg True ''half'')
        (fmdrop (c @ [''db'', ''metadata.json'']) fsys))"

definition tool_ok :: "path \<Rightarrow> filesys \<Rightarrow> string option \<times> filesys" where
  "tool_ok c fsys =
     (None,
      fmupd (c @ [''db'', ''trivy.db'']) (Reg True ''new vulnerability data'')
        (fmupd (c @ [''db'', ''metadata.json'']) (Reg True (doc3 @ [CHR 0x0A])) fsys))"

definition tool_noop :: "path \<Rightarrow> filesys \<Rightarrow> string option \<times> filesys" where
  "tool_noop c fsys = (None, fsys)"

definition fs_boot :: filesys where
  "fs_boot = fmap_of_list
     [([], Dir), ([''tmp''], Dir), ([''tmp'', ''trivy''], Dir), ([''tmp'', ''trivy'', ''db''], Dir),
      ([''tmp'', ''trivy'', ''db'', ''trivy.db''], Reg True ''vulnerability data''),
      ([''tmp'', ''trivy_save''], Dir), ([''tmp'', ''trivy_save'', ''old''], Reg True ''stale'')]"

definition fs_due :: filesys where
  "fs_due = fmupd meta0 (Reg True (doc1 @ [CHR 0x0A])) fs_boot"


definition world0 :: "filesys \<Rightarrow> world" where
  "world0 fsys = \<lparr>fs = fsys, ticks = 0, out = [], calls = []\<rparr>"

section \<open>Facts about the file system operations\<close>

lemma MkdirAll_Dir: "fmlookup fsys p = Some Dir \<Longrightarrow> os_MkdirAll fsys p = (None, fsys)"
  by (simp add: os_MkdirAll.simps)

lemma MkdirAll_Reg: "fmlookup fsys p = Some (Reg r b) \<Longrightarrow> os_MkdirAll fsys p = (Some ENOTDIR, fsys)"
  by (simp add: os_MkdirAll.simps)

lemma MkdirAll_fail: "os_MkdirAll fsys p = (Some e, fs') \<Longrightarrow> fs' = fsys"
proof (induction fsys p arbitrary: e fs' rule: os_MkdirAll.induct)
  case (1 fsys p)
  show ?case
  proof (cases "fmlookup fsys p")
    case None
    show ?thesis
    proof (cases "p = []")
      case True
      with None "1.prems" show ?thesis by (simp add: os_MkdirAll.simps)
    next
      case False
      obtain e1 fs1 where r: "os_MkdirAll fsys (butlast p) = (e1, fs1)" by (cases "os_MkdirAll fsys (butlast p)")
      with None False "1.prems" have "e1 = Some e \<and> fs1 = fs'"
        by (cases e1) (simp_all add: os_MkdirAll.simps [of fsys p])
      with "1.IH" [OF None False] r show ?thesis by simp
    qed
  next
    case (Some v)
    with "1.prems" show ?thesis by (cases v) (simp_all add: os_MkdirAll.simps)
  qed
qed

lemma MkdirAll_lookup:
  "os_MkdirAll fsys p = (e, fs') \<Longrightarrow>
     fmlookup fs' q = fmlookup fsys q \<or>
     (e = None \<and> prefix q p \<and> fmlookup fsys q = None \<and> fmlookup fs' q = Some Dir)"
proof (induction fsys p arbitrary: e fs' rule: os_MkdirAll.induct)
  case (1 fsys p)
  show ?case
  proof (cases "fmlookup fsys p")
    case None
    show ?thesis
    proof (cases "p = []")
      case True
      with None "1.prems" show ?thesis by (cases "q = []") (auto simp add: os_MkdirAll.simps)
    next
      case False
      obtain e1 fs1 where r: "os_MkdirAll fsys (butlast p) = (e1, fs1)" by (cases "os_MkdirAll fsys (butlast p)")
      note ih = "1.IH" [OF None False r]
      show ?thesis
      proof (cases e1)
        case None' : None
        with None False r "1.prems" have e: "e = None" and f: "fs' = fmupd p Dir fs1"
          by (simp_all add: os_MkdirAll.simps [of fsys p])
        show ?thesis
        proof (cases "q = p")
          case True
          with None e f show ?thesis by simp
        next
          case neq: False
          from ih have "fmlookup fs1 q = fmlookup fsys q \<or>
             (prefix q (butlast p) \<and> fmlookup fsys q = None \<and> fmlookup fs1 q = Some Dir)" by auto
          moreover have "prefix q (butlast p) \<Longrightarrow> prefix q p"
            using prefixeq_butlast prefix_order.trans by blast
          ultimately show ?thesis using neq e f by auto
        qed
      next
        case (Some a)
        with None False r "1.prems" have "fs' = fs1" "e = Some a"
          by (simp_all add: os_MkdirAll.simps [of fsys p])
        with ih Some show ?thesis by auto
      qed
    qed
  next
    case (Some v)
    with "1.prems" show ?thesis by (cases v) (auto simp add: os_MkdirAll.simps)
  qed
qed

lemma MkdirAll_other:
  "\<not> prefix q p \<Longrightarrow> fmlookup (snd (os_MkdirAll fsys p)) q = fmlookup fsys q"
  using MkdirAll_lookup [of fsys p "fst (os_MkdirAll fsys p)" "snd (os_MkdirAll fsys p)" q] by auto


lemma MkdirAll_new:
  "fmlookup (snd (os_MkdirAll fsys p)) q = Some v \<Longrightarrow> fmlookup fsys q = None \<Longrightarrow>
     v = Dir \<and> prefix q p \<and> fst (os_MkdirAll fsys p) = None"
  using MkdirAll_lookup [of fsys p "fst (os_MkdirAll fsys p)" "snd (os_MkdirAll fsys p)" q] by auto

lemma MkdirAll_ok_Dir: "os_MkdirAll fsys p = (None, fs') \<Longrightarrow> fmlookup fs' p = Some Dir"
proof -
  assume a: "os_MkdirAll fsys p = (None, fs')"
  show ?thesis
  proof (cases "fmlookup fsys p")
    case None
    then show ?thesis using a
      by (cases "os_MkdirAll fsys (butlast p)"; cases "fst (os_MkdirAll fsys (butlast p))")
         (auto simp add: os_MkdirAll.simps [of fsys p] split: if_splits)
  next
    case (Some v)
    then show ?thesis using a by (cases v) (auto simp add: os_MkdirAll.simps [of fsys p])
  qed
qed

lemma MkdirAll_child:
  "fmlookup fsys (butlast p) = Some Dir \<Longrightarrow> p \<noteq> [] \<Longrightarrow> fmlookup fsys p = None \<Longrightarrow>
     os_MkdirAll fsys p = (None, fmupd p Dir fsys)"
  by (simp add: os_MkdirAll.simps [of fsys p] MkdirAll_Dir)

lemma MkdirAll_parent:
  "os_MkdirAll fsys p = (None, fs') \<Longrightarrow> fmlookup fsys p = None \<Longrightarrow> p \<noteq> [] \<Longrightarrow>
     fmlookup fs' (butlast p) = Some Dir"
proof -
  assume a: "os_MkdirAll fsys p = (None, fs')" and n: "fmlookup fsys p = None" and p: "p \<noteq> []"
  obtain e1 fs1 where r: "os_MkdirAll fsys (butlast p) = (e1, fs1)" by (cases "os_MkdirAll fsys (butlast p)")
  with a n p have e: "e1 = None" and f: "fs' = fmupd p Dir fs1"
    by (cases e1; simp add: os_MkdirAll.simps [of fsys p])+
  from r e have "fmlookup fs1 (butlast p) = Some Dir" by (simp add: MkdirAll_ok_Dir)
  moreover from p have "butlast p \<noteq> p" by (metis append_butlast_last_id append_self_conv not_Cons_self2)
  ultimately show ?thesis using f by simp
qed

lemma MkdirAll_idem: "os_MkdirAll fsys p = (e, fs') \<Longrightarrow> os_MkdirAll fs' p = (e, fs')"
  by (cases e) (auto simp: MkdirAll_ok_Dir MkdirAll_Dir dest: MkdirAll_fail)

lemma MkdirAll_under_Dir:
  assumes "fmlookup fsys d = Some Dir" and "q \<noteq> d @ [x]"
  shows "fmlookup (snd (os_MkdirAll fsys (d @ [x]))) q = fmlookup fsys q"
proof (cases "fmlookup fsys (d @ [x])")
  case None
  with assms show ?thesis by (simp add: MkdirAll_child)
next
  case (Some v)
  then show ?thesis by (cases v) (simp_all add: MkdirAll_Dir MkdirAll_Reg)
qed

lemma Create_other:
  "q \<noteq> p \<Longrightarrow> fmlookup (snd (os_Create fsys p)) q = fmlookup fsys q"
  by (auto simp add: os_Create_def split: option.splits inode.splits)

lemma Copy_other:
  "q \<noteq> p \<Longrightarrow> fmlookup (snd (io_Copy fsys p s)) q = fmlookup fsys q"
  by (auto simp add: io_Copy_def split: option.splits inode.splits)

lemma WriteFile_other:
  "q \<noteq> p \<Longrightarrow> fmlookup (snd (os_WriteFile fsys p d)) q = fmlookup fsys q"
  by (auto simp add: os_WriteFile_def split: option.splits inode.splits)

lemma copy_frame:
  shows "copyDir n fsys src dst = Some (e, fs') \<Longrightarrow> \<not> strict_prefix dst q \<Longrightarrow>
           fmlookup fs' q = fmlookup (snd (os_MkdirAll fsys dst)) q"
    and "copyEntries n fsys src dst xs = Some (e, fs') \<Longrightarrow> fmlookup fsys dst = Some Dir \<Longrightarrow>
           \<forall>x\<in>fst ` set xs. \<not> prefix (dst @ [x]) q \<Longrightarrow> fmlookup fs' q = fmlookup fsys q"
proof (induction n fsys src dst and n fsys src dst xs arbitrary: e fs' q and e fs' q
    rule: copyDir_copyEntries.induct)
  case (1 fsys src dst)
  then show ?case by simp
next
  case (2 n fsys src dst)
  obtain e0 fs1 where m: "os_MkdirAll fsys dst = (e0, fs1)" by (cases "os_MkdirAll fsys dst")
  show ?case
  proof (cases e0)
    case (Some a)
    with m "2.prems" show ?thesis by simp
  next
    case None
    show ?thesis
    proof (cases "os_ReadDir fs1 src")
      case (Inl a)
      with m None "2.prems" show ?thesis by simp
    next
      case (Inr entries)
      with m None "2.prems" have r: "copyEntries n fs1 src dst entries = Some (e, fs')" by simp
      from m None have d: "fmlookup fs1 dst = Some Dir" by (simp add: MkdirAll_ok_Dir)
      have "\<forall>x\<in>fst ` set entries. \<not> prefix (dst @ [x]) q"
        using "2.prems"(2) by (auto dest: prefix_snocD)
      from "2.IH" [OF m [symmetric] None Inr r d this] m show ?thesis by simp
    qed
  qed
next
  case (3 n fsys src dst)
  then show ?case by simp
next
  case (4 n fsys src dst name isDir rest)
  from "4.prems"(3) have q: "q \<noteq> dst @ [name]" and qr: "\<forall>x\<in>fst ` set rest. \<not> prefix (dst @ [x]) q"
    by auto
  from "4.prems"(3) have nq: "\<not> prefix (dst @ [name]) q" by simp
  have dn: "dst \<noteq> dst @ [name]" by simp
  show ?case
  proof (cases isDir)
    case True
    show ?thesis
    proof (cases "copyDir n fsys (src @ [name]) (dst @ [name])")
      case None
      with True "4.prems" show ?thesis by simp
    next
      case (Some r)
      obtain e1 fs1 where r: "r = (e1, fs1)" by (cases r)
      have f1: "fmlookup fs1 p = fmlookup fsys p" if "\<not> prefix (dst @ [name]) p" for p
      proof -
        from that have "p \<noteq> dst @ [name]" and "\<not> strict_prefix (dst @ [name]) p" by auto
        with "4.IH"(1) [OF True Some [unfolded r]] "4.prems"(2) show ?thesis
          by (simp add: MkdirAll_under_Dir)
      qed
      show ?thesis
      proof (cases e1)
        case None
        with True Some r "4.prems" have c: "copyEntries n fs1 src dst rest = Some (e, fs')" by simp
        have d: "fmlookup fs1 dst = Some Dir" using f1 [of dst] "4.prems"(2) by simp
        from "4.IH"(2) [OF True Some r [symmetric] None c d qr] f1 [OF nq] show ?thesis by simp
      next
        case (Some a)
        with True \<open>copyDir n fsys (src @ [name]) (dst @ [name]) = Some r\<close> r "4.prems"
        have "fs' = fs1" by simp
        with f1 [OF nq] show ?thesis by simp
      qed
    qed
  next
    case False
    show ?thesis
    proof (cases "os_Open fsys (src @ [name])")
      case (Inl a)
      with False "4.prems" show ?thesis by simp
    next
      case (Inr b)
      obtain e1 fs1 where c1: "os_Create fsys (dst @ [name]) = (e1, fs1)"
        by (cases "os_Create fsys (dst @ [name])")
      have f1: "fmlookup fs1 p = fmlookup fsys p" if "p \<noteq> dst @ [name]" for p
        using Create_other [OF that, of fsys] c1 by simp
      show ?thesis
      proof (cases e1)
        case (Some a)
        with False Inr c1 "4.prems" have "fs' = fs1" by simp
        with f1 [OF q] show ?thesis by simp
      next
        case None
        obtain e2 fs2 where c2: "io_Copy fs1 (dst @ [name]) b = (e2, fs2)"
          by (cases "io_Copy fs1 (dst @ [name]) b")
        have f2: "fmlookup fs2 p = fmlookup fsys p" if "p \<noteq> dst @ [name]" for p
          using Copy_other [OF that, of fs1 b] c2 f1 [OF that] by simp
        show ?thesis
        proof (cases e2)
          case (Some a)
          with False Inr c1 c2 None "4.prems" have "fs' = fs2" by simp
          with f2 [OF q] show ?thesis by simp
        next
          case None' : None
          with False Inr c1 c2 None "4.prems"
          have c: "copyEntries n fs2 src dst rest = Some (e, fs')" by simp
          have d: "fmlookup fs2 dst = Some Dir" using f2 [OF dn] "4.prems"(2) by simp
          from "4.IH"(3) [OF False Inr c1 [symmetric] None c2 [symmetric] None' c d qr] f2 [OF q]
          show ?thesis by simp
        qed
      qed
    qed
  qed
qed

section \<open>What \<^verbatim>\<open>copyDir\<close> does\<close>

lemma prefix_app_cases: "prefix (a @ r) (b @ q) \<Longrightarrow> prefix a b \<or> prefix b a"
proof -
  assume "prefix (a @ r) (b @ q)"
  then have "prefix a (b @ q)" by (rule append_prefixD)
  then show ?thesis by (auto simp: prefix_append)
qed


lemma separate_src_off_dst: "separate src dst \<Longrightarrow> \<not> prefix (dst @ r) (src @ q)"
  unfolding separate_def using prefix_app_cases by blast

lemma separate_child: "separate src dst \<Longrightarrow> separate (src @ [x]) (dst @ [y])"
  unfolding separate_def using prefix_app_cases [of src "[x]" dst "[y]"] prefix_app_cases [of dst "[y]" src "[x]"]
  by blast










lemma copyDir_child_frame:
  assumes "copyDir n fsys s (d @ [x]) = Some (e1, fs1)" and "fmlookup fsys d = Some Dir"
    and "\<not> prefix (d @ [x]) p"
  shows "fmlookup fs1 p = fmlookup fsys p"
proof -
  from assms(3) have "p \<noteq> d @ [x]" and "\<not> strict_prefix (d @ [x]) p" by auto
  with copy_frame(1) [OF assms(1)] assms(2) show ?thesis
    by (simp add: MkdirAll_under_Dir)
qed



















section \<open>The metadata store\<close>



text \<open>
  Claim C3. When the metadata can be read and its \<open>NextUpdate\<close> lies strictly after the
  clock reading, \<^verbatim>\<open>main\<close> calls neither the backup nor the external tool, leaves the
  whole file system (and so the cache directory) as it is, and prints the existing
  \<open>NextUpdate\<close>.
\<close>

theorem C3_up_to_date:
  assumes "readMetadata E (fs w) (cacheDir @ [''db'', ''metadata.json'']) = Inr m"
    and "time_Now E (ticks w) < NextUpdate m"
  shows "\<exists>w'. main E n w cacheDir = Some w' \<and> calls w' = calls w \<and> fs w' = fs w \<and>
           out w' = out w @ [UpToDate, NextUpdateAt (NextUpdate m)]"
  using assms by (simp add: main_def now_def println_def)

theorem C3_up_to_date_witness:
  "readMetadata (demo_env clock_early tool_fail) (fs (world0 fs_due))
       (cache0 @ [''db'', ''metadata.json'']) = Inr rec1 \<and>
   time_Now (demo_env clock_early tool_fail) (ticks (world0 fs_due)) < NextUpdate rec1 \<and>
   (\<exists>w'. main (demo_env clock_early tool_fail) 3 (world0 fs_due) cache0 = Some w' \<and>
      calls w' = calls (world0 fs_due) \<and> fs w' = fs (world0 fs_due) \<and>
      out w' = out (world0 fs_due) @ [UpToDate, NextUpdateAt (NextUpdate rec1)])"
proof -
  have h1: "readMetadata (demo_env clock_early tool_fail) (fs (world0 fs_due))
       (cache0 @ [''db'', ''metadata.json'']) = Inr rec1" by code_simp
  have h2: "time_Now (demo_env clock_early tool_fail) (ticks (world0 fs_due)) < NextUpdate rec1"
    by code_simp
  from C3_up_to_date [OF h1 h2, of 3] h1 h2 show ?thesis by simp
qed

lemma updateMetadataNextUpdate_write:
  "updateMetadataNextUpdate E w p =
     (case readMetadata E (fs w) p of
        Inl err \<Rightarrow> (Some err, w)
      | Inr m \<Rightarrow>
          (let t = time_Now E (ticks w); w1 = w\<lparr>ticks := Suc (ticks w)\<rparr>
           in case writeMetadata E (fs w) p (m\<lparr>NextUpdate := t + 4 * Hour\<rparr>) of
                (Some err, fs1) \<Rightarrow> (Some err, w1\<lparr>fs := fs1\<rparr>)
              | (None, fs1) \<Rightarrow> (None, println (w1\<lparr>fs := fs1\<rparr>) [DelayNextUpdate (t + 4 * Hour)])))"
  by (simp add: updateMetadataNextUpdate_def writeMetadata_def now_def Let_def
      split: sum.splits option.splits prod.splits)







section \<open>Backup\<close>

text \<open>The backup, seen on the file system alone.\<close>

lemma RemoveAll_lookup:
  "fmlookup (snd (os_RemoveAll fsys p)) q = (if prefix p q then None else fmlookup fsys q)"
  by (simp add: os_RemoveAll_def)

lemma backupTrivyDB_unfold:
  "backupTrivyDB n w c =
     (case os_MkdirAll (snd (os_RemoveAll (fs w) backupDir)) backupDir of
        (Some err, fs2) \<Rightarrow>
          Some (Some (Wrap ''failed to create backup directory'' (Os err)),
                w\<lparr>calls := calls w @ [CallBackup], fs := fs2\<rparr>)
      | (None, fs2) \<Rightarrow>
          (case copyDir n fs2 c backupDir of
             None \<Rightarrow> None
           | Some (Some err, fs3) \<Rightarrow>
               Some (Some (Wrap ''failed to copy directory'' (Os err)),
                     w\<lparr>calls := calls w @ [CallBackup], fs := fs3\<rparr>)
           | Some (None, fs3) \<Rightarrow>
               Some (None, w\<lparr>calls := calls w @ [CallBackup], fs := fs3,
                               out := out w @ [BackedUp c backupDir]\<rparr>)))"
  by (simp add: backupTrivyDB_def Let_def println_def split: prod.splits option.splits)


lemma backup_cong:
  assumes "backupTrivyDB n w c = Some (e, wb)" and "fs w1 = fs w"
  shows "backupTrivyDB n w1 c =
           Some (e, w1\<lparr>calls := calls w1 @ [CallBackup], fs := fs wb,
                        out := out w1 @ (if e = None then [BackedUp c backupDir] else [])\<rparr>)"
  using assms
  by (auto simp: backupTrivyDB_unfold split: prod.splits option.splits)

lemma backup_cases:
  assumes "backupTrivyDB n w c = Some (e, w')"
  obtains (mkdir) err where "os_MkdirAll (snd (os_RemoveAll (fs w) backupDir)) backupDir = (Some err, fs w')"
      "e = Some (Wrap ''failed to create backup directory'' (Os err))"
  | (copy) fs2 e3 where "os_MkdirAll (snd (os_RemoveAll (fs w) backupDir)) backupDir = (None, fs2)"
      "copyDir n fs2 c backupDir = Some (e3, fs w')"
      "e = map_option (\<lambda>err. Wrap ''failed to copy directory'' (Os err)) e3"
  using assms
  by (auto simp: backupTrivyDB_unfold split: prod.splits option.splits)

lemma RemoveAll_MkdirAll_again:
  assumes m: "os_MkdirAll (snd (os_RemoveAll fsys b)) b = (None, fs2)" and b: "b \<noteq> []"
    and same: "\<And>q. \<not> strict_prefix b q \<Longrightarrow> fmlookup fs3 q = fmlookup fs2 q"
  shows "os_MkdirAll (snd (os_RemoveAll fs3 b)) b = (None, fs2)"
proof -
  let ?R = "snd (os_RemoveAll fsys b)" and ?R3 = "snd (os_RemoveAll fs3 b)"
  have n: "fmlookup ?R b = None" by (simp add: RemoveAll_lookup)
  from MkdirAll_parent [OF m n b] have par: "fmlookup fs2 (butlast b) = Some Dir" .
  have bb: "\<not> prefix b (butlast b)"
    using b by (metis prefix_order.antisym prefixeq_butlast append_butlast_last_id append_self_conv not_Cons_self2)
  have below: "fmlookup fs2 q = None" if "strict_prefix b q" for q
  proof -
    from that have "\<not> prefix q b" by (auto simp: strict_prefix_def)
    from MkdirAll_other [OF this, of ?R] m have "fmlookup fs2 q = fmlookup ?R q" by simp
    with that show ?thesis by (simp add: RemoveAll_lookup strict_prefix_def)
  qed
  have eq: "fmupd b Dir ?R3 = fs2"
  proof (rule fmap_ext)
    fix q
    show "fmlookup (fmupd b Dir ?R3) q = fmlookup fs2 q"
    proof (cases "q = b")
      case True
      with MkdirAll_ok_Dir [OF m] show ?thesis by simp
    next
      case False
      show ?thesis
      proof (cases "prefix b q")
        case True
        with False have "strict_prefix b q" by (simp add: strict_prefix_def)
        from below [OF this] False True show ?thesis by (simp add: RemoveAll_lookup)
      next
        case np: False
        then have "\<not> strict_prefix b q" by (simp add: strict_prefix_def)
        from same [OF this] False np show ?thesis by (simp add: RemoveAll_lookup)
      qed
    qed
  qed
  have p3: "fmlookup ?R3 (butlast b) = Some Dir"
  proof -
    from bb have "\<not> strict_prefix b (butlast b)" by (simp add: strict_prefix_def)
    from same [OF this] par bb show ?thesis by (simp add: RemoveAll_lookup)
  qed
  have "fmlookup ?R3 b = None" by (simp add: RemoveAll_lookup)
  from MkdirAll_child [OF p3 b this] eq show ?thesis by simp
qed

lemma backupDir_not_Nil: "backupDir \<noteq> []"
  by (simp add: backupDir_def)

lemma backup_twice:
  assumes "backupTrivyDB n w c = Some (e, w1)"
  shows "backupTrivyDB n w1 c =
           Some (e, w1\<lparr>calls := calls w1 @ [CallBackup],
                        out := out w1 @ (if e = None then [BackedUp c backupDir] else [])\<rparr>)"
  using assms
proof (cases rule: backup_cases)
  case (mkdir err)
  let ?R = "snd (os_RemoveAll (fs w) backupDir)"
  from MkdirAll_fail [OF mkdir(1)] have f: "fs w1 = ?R" .
  have "snd (os_RemoveAll (fs w1) backupDir) = ?R"
    unfolding f by (rule fmap_ext) (simp add: RemoveAll_lookup)
  with mkdir f show ?thesis
    by (simp add: backupTrivyDB_unfold)
next
  case (copy fs2 e3)
  have d: "fmlookup fs2 backupDir = Some Dir" using copy(1) by (rule MkdirAll_ok_Dir)
  have same: "fmlookup (fs w1) q = fmlookup fs2 q" if "\<not> strict_prefix backupDir q" for q
    using copy_frame(1) [OF copy(2) that] MkdirAll_Dir [OF d] by simp
  from RemoveAll_MkdirAll_again [OF copy(1) backupDir_not_Nil same]
  have "os_MkdirAll (snd (os_RemoveAll (fs w1) backupDir)) backupDir = (None, fs2)" .
  with copy show ?thesis
    by (cases e3) (simp_all add: backupTrivyDB_unfold)
qed

text \<open>
  Claim C7. A backup that is run again on the world the first one left, for the same
  cache directory, ends with the same error or success and leaves the file system, and
  so the backup location, exactly as the first one did: each backup removes what is at
  the backup location before it copies. This holds for every cache directory and every
  file system; the concrete run below shows a previous backup being discarded.
\<close>

theorem C7_backup_idempotent:
  assumes "backupTrivyDB n w cacheDir = Some (e, w1)"
  shows "\<exists>w2. backupTrivyDB n w1 cacheDir = Some (e, w2) \<and> fs w2 = fs w1"
  using backup_twice [OF assms] by simp

theorem C7_backup_idempotent_witness:
  "backupTrivyDB 3 (world0 fs_due) cache0 \<noteq> None \<and>
   fmlookup (fs_due) [''tmp'', ''trivy_save'', ''old''] = Some (Reg True ''stale'') \<and>
   fmlookup (fs (snd (the (backupTrivyDB 3 (world0 fs_due) cache0)))) [''tmp'', ''trivy_save'', ''old'']
     = None \<and>
   (\<exists>w2. backupTrivyDB 3 (snd (the (backupTrivyDB 3 (world0 fs_due) cache0))) cache0
            = Some (None, w2) \<and>
      fs w2 = fs (snd (the (backupTrivyDB 3 (world0 fs_due) cache0))))"
proof -
  obtain w1 where h: "backupTrivyDB 3 (world0 fs_due) cache0 = Some (None, w1)"
  proof -
    have "fst (the (backupTrivyDB 3 (world0 fs_due) cache0)) = None \<and>
          backupTrivyDB 3 (world0 fs_due) cache0 \<noteq> None" by code_simp
    then show ?thesis using that by (cases "backupTrivyDB 3 (world0 fs_due) cache0") auto
  qed
  have o: "fmlookup (fs_due) [''tmp'', ''trivy_save'', ''old''] = Some (Reg True ''stale'')"
    by code_simp
  have g: "fmlookup (fs (snd (the (backupTrivyDB 3 (world0 fs_due) cache0)))) [''tmp'', ''trivy_save'', ''old'']
     = None" by code_simp
  from C7_backup_idempotent [OF h] h o g show ?thesis by simp
qed










lemma backup_copy_state:
  assumes m: "os_MkdirAll (snd (os_RemoveAll fsys backupDir)) backupDir = (None, fs2)"
    and sep: "separate c backupDir"
  shows "fmlookup fs2 (c @ q) = fmlookup fsys (c @ q)" and "fresh_below fs2 backupDir"
    and "fst (os_MkdirAll fs2 backupDir) = None"
proof -
  have 1: "\<not> prefix backupDir (c @ q)"
    using separate_src_off_dst [OF sep, of "[]" q] by simp
  have 2: "\<not> prefix (c @ q) backupDir"
    using sep append_prefixD by (auto simp: separate_def)
  from MkdirAll_other [OF 2, of "snd (os_RemoveAll fsys backupDir)"] m 1
  show "fmlookup fs2 (c @ q) = fmlookup fsys (c @ q)" by (simp add: RemoveAll_lookup)
  show "fresh_below fs2 backupDir"
    unfolding fresh_below_def
  proof (intro allI impI)
    fix r :: path assume "r \<noteq> []"
    then have "\<not> prefix (backupDir @ r) backupDir" by simp
    from MkdirAll_other [OF this, of "snd (os_RemoveAll fsys backupDir)"] m
    show "fmlookup fs2 (backupDir @ r) = None" by (simp add: RemoveAll_lookup)
  qed
  from MkdirAll_Dir [OF MkdirAll_ok_Dir [OF m]] show "fst (os_MkdirAll fs2 backupDir) = None" by simp
qed




text \<open>
  With separate directories the recursion of \<^verbatim>\<open>copyDir\<close> is as deep as the source tree,
  so a backup returns as soon as the bound exceeds that depth.
\<close>

lemma shallow_child: "shallow (Suc n) fsys p \<Longrightarrow> shallow n fsys (p @ [x])"
  unfolding shallow_def
proof (intro allI impI)
  fix q
  assume a: "\<forall>q. fmlookup fsys (p @ q) = Some Dir \<longrightarrow> length q < Suc n"
    and "fmlookup fsys ((p @ [x]) @ q) = Some Dir"
  then have "fmlookup fsys (p @ (x # q)) = Some Dir" by simp
  with a have "length (x # q) < Suc n" by blast
  then show "length q < n" by simp
qed

lemma shallow_cong:
  "(\<And>q. fmlookup fs1 (p @ q) = fmlookup fsys (p @ q)) \<Longrightarrow> shallow n fs1 p = shallow n fsys p"
  unfolding shallow_def by simp

lemma shallow_mono: "shallow n fsys p \<Longrightarrow> n \<le> m \<Longrightarrow> shallow m fsys p"
  unfolding shallow_def by (meson less_le_trans)

lemma shallow_pos: "shallow n fsys p \<Longrightarrow> fmlookup fsys p = Some Dir \<Longrightarrow> 0 < n"
  unfolding shallow_def by (metis append_Nil2 list.size(3))

lemma copy_returns:
  shows "separate src dst \<Longrightarrow> shallow n fsys src \<Longrightarrow> 0 < n \<Longrightarrow> copyDir n fsys src dst \<noteq> None"
    and "separate src dst \<Longrightarrow> fmlookup fsys dst = Some Dir \<Longrightarrow>
         \<forall>(x, d)\<in>set xs. d \<longrightarrow> fmlookup fsys (src @ [x]) = Some Dir \<and> shallow n fsys (src @ [x]) \<Longrightarrow>
         copyEntries n fsys src dst xs \<noteq> None"
proof (induction n fsys src dst and n fsys src dst xs rule: copyDir_copyEntries.induct)
  case (1 fsys src dst)
  then show ?case by simp
next
  case (2 n fsys src dst)
  note sep = "2.prems"(1) and sh = "2.prems"(2)
  obtain e0 fs1 where m: "os_MkdirAll fsys dst = (e0, fs1)" by (cases "os_MkdirAll fsys dst")
  show ?case
  proof (cases e0)
    case (Some a)
    with m show ?thesis by simp
  next
    case None
    have F1: "fmlookup fs1 dst = Some Dir" using m None by (simp add: MkdirAll_ok_Dir)
    have F2: "fmlookup fs1 (src @ q) = fmlookup fsys (src @ q)" for q
    proof -
      have "\<not> prefix (src @ q) dst" using sep append_prefixD by (auto simp: separate_def)
      from MkdirAll_other [OF this, of fsys] m show ?thesis by simp
    qed
    show ?thesis
    proof (cases "os_ReadDir fs1 src")
      case (Inl a)
      with m None show ?thesis by simp
    next
      case (Inr entries)
      have "fmlookup fs1 (src @ [x]) = Some Dir \<and> shallow n fs1 (src @ [x])"
        if "(x, True) \<in> set entries" for x
      proof -
        from that Inr have d: "fmlookup fs1 (src @ [x]) = Some Dir"
          by (auto simp: os_ReadDir_def split: option.splits inode.splits)
        have "shallow n fsys (src @ [x])" using sh by (rule shallow_child)
        moreover have "shallow n fs1 (src @ [x]) = shallow n fsys (src @ [x])"
          by (rule shallow_cong) (simp add: F2)
        ultimately show ?thesis using d by simp
      qed
      then have ent: "\<forall>(x, d)\<in>set entries. d \<longrightarrow>
          fmlookup fs1 (src @ [x]) = Some Dir \<and> shallow n fs1 (src @ [x])" by auto
      from "2.IH" [OF m [symmetric] None Inr sep F1 ent] m None Inr show ?thesis by simp
    qed
  qed
next
  case (3 n fsys src dst)
  then show ?case by simp
next
  case (4 n fsys src dst name isDir rest)
  note sep = "4.prems"(1) and D = "4.prems"(2) and ent = "4.prems"(3)
  have rest_ok: "\<forall>(x, d)\<in>set rest. d \<longrightarrow>
      fmlookup fs1 (src @ [x]) = Some Dir \<and> shallow n fs1 (src @ [x])"
    if ag: "\<And>p. \<not> prefix (dst @ [name]) p \<Longrightarrow> fmlookup fs1 p = fmlookup fsys p" for fs1
  proof -
    have s: "fmlookup fs1 (src @ q) = fmlookup fsys (src @ q)" for q
      using ag separate_src_off_dst [OF sep] by simp
    have "fmlookup fs1 (src @ [x]) = Some Dir \<and> shallow n fs1 (src @ [x])"
      if x: "(x, True) \<in> set rest" for x
    proof -
      from x ent have "fmlookup fsys (src @ [x]) = Some Dir \<and> shallow n fsys (src @ [x])" by auto
      moreover have "shallow n fs1 (src @ [x]) = shallow n fsys (src @ [x])"
        by (rule shallow_cong) (simp add: s)
      ultimately show ?thesis using s [of "[x]"] by simp
    qed
    then show ?thesis by auto
  qed
  show ?case
  proof (cases isDir)
    case True
    with ent have d: "fmlookup fsys (src @ [name]) = Some Dir" and sh: "shallow n fsys (src @ [name])"
      by auto
    from shallow_pos [OF sh d] have pos: "0 < n" .
    from "4.IH"(1) [OF True separate_child [OF sep] sh pos]
    obtain e1 fs1 where r: "copyDir n fsys (src @ [name]) (dst @ [name]) = Some (e1, fs1)" by auto
    show ?thesis
    proof (cases e1)
      case (Some a)
      with True r show ?thesis by simp
    next
      case None
      have ag: "fmlookup fs1 p = fmlookup fsys p" if "\<not> prefix (dst @ [name]) p" for p
        using copyDir_child_frame [OF r D that] .
      have D1: "fmlookup fs1 dst = Some Dir" using ag [of dst] D by simp
      from "4.IH"(2) [OF True r [unfolded None] refl refl sep D1 rest_ok [OF ag]] True r None
      show ?thesis by simp
    qed
  next
    case False
    show ?thesis
    proof (cases "os_Open fsys (src @ [name])")
      case (Inl a)
      with False show ?thesis by simp
    next
      case (Inr b)
      obtain e1 fs1 where c1: "os_Create fsys (dst @ [name]) = (e1, fs1)"
        by (cases "os_Create fsys (dst @ [name])")
      show ?thesis
      proof (cases e1)
        case (Some a)
        with False Inr c1 show ?thesis by simp
      next
        case None
        obtain e2 fs2 where c2: "io_Copy fs1 (dst @ [name]) b = (e2, fs2)"
          by (cases "io_Copy fs1 (dst @ [name]) b")
        show ?thesis
        proof (cases e2)
          case (Some a)
          with False Inr c1 c2 None show ?thesis by simp
        next
          case None' : None
          have ag: "fmlookup fs2 p = fmlookup fsys p" if "\<not> prefix (dst @ [name]) p" for p
          proof -
            from that have ne: "p \<noteq> dst @ [name]" by auto
            from Copy_other [OF ne, of fs1 b] Create_other [OF ne, of fsys] c1 c2
            show ?thesis by simp
          qed
          have D2: "fmlookup fs2 dst = Some Dir" using ag [of dst] D by simp
          from "4.IH"(3) [OF False Inr c1 [symmetric] None c2 [symmetric] None' sep D2 rest_ok [OF ag]]
            False Inr c1 c2 None None'
          show ?thesis by simp
        qed
      qed
    qed
  qed
qed

lemma shallow_exists: "\<exists>n. 0 < n \<and> shallow n fsys p"
proof -
  let ?L = "length ` fset (fmdom fsys)"
  have fin: "finite ?L" by simp
  have "shallow (Suc (Max (insert 0 ?L))) fsys p"
    unfolding shallow_def
  proof (intro allI impI)
    fix q assume "fmlookup fsys (p @ q) = Some Dir"
    then have "p @ q |\<in>| fmdom fsys" by (rule fmdomI)
    then have "length (p @ q) \<in> ?L" by (rule imageI)
    then have "length (p @ q) \<in> insert 0 ?L" by (rule insertI2)
    with fin have "length (p @ q) \<le> Max (insert 0 ?L)" by (intro Max_ge) auto
    then show "length q < Suc (Max (insert 0 ?L))" by simp
  qed
  then show ?thesis by blast
qed

lemma backup_returns:
  assumes sep: "separate c backupDir" and sh: "shallow n (fs w) c" and pos: "0 < n"
  shows "backupTrivyDB n w c \<noteq> None"
proof -
  obtain e0 fs2 where m: "os_MkdirAll (snd (os_RemoveAll (fs w) backupDir)) backupDir = (e0, fs2)"
    by (cases "os_MkdirAll (snd (os_RemoveAll (fs w) backupDir)) backupDir")
  show ?thesis
  proof (cases e0)
    case (Some a)
    with m show ?thesis by (simp add: backupTrivyDB_unfold)
  next
    case None
    from backup_copy_state(1) [OF m [unfolded None] sep]
    have "shallow n fs2 c = shallow n (fs w) c" by (intro shallow_cong) simp
    with sh have "shallow n fs2 c" by simp
    from copy_returns(1) [OF sep this pos] m None show ?thesis
      by (auto simp add: backupTrivyDB_unfold split: option.splits)
  qed
qed

lemma backup_terminates:
  assumes "separate c backupDir"
  shows "\<exists>n0. \<forall>n\<ge>n0. backupTrivyDB n w c \<noteq> None"
proof -
  from shallow_exists obtain n0 where n0: "0 < n0" "shallow n0 (fs w) c" by blast
  have "backupTrivyDB n w c \<noteq> None" if "n0 \<le> n" for n
    using backup_returns [OF assms shallow_mono [OF n0(2) that]] n0(1) that by simp
  then show ?thesis by blast
qed

section \<open>The refresh cycle\<close>

lemma refresh_intro_simps [simp]:
  "fs (refresh_intro E w c) = fs w" "calls (refresh_intro E w c) = calls w"
  by (simp_all add: refresh_intro_def println_def now_def split: sum.splits)

lemma main_refresh:
  assumes "refresh_due E w c"
  shows "main E n w c =
     (case backupTrivyDB n (refresh_intro E w c) c of
        None \<Rightarrow> None
      | Some (Some berr, w2) \<Rightarrow> Some (println w2 [ErrorBackingUp berr])
      | Some (None, w2) \<Rightarrow>
          (case runTrivyUpdateCommand E w2 c of
             (Some terr, w3) \<Rightarrow>
               (case restoreTrivyDB E n (println w3 [PrintError terr, UpdateFailedRestoring]) c of
                  None \<Rightarrow> None
                | Some (Some restoreErr, w4) \<Rightarrow> Some (println w4 [ErrorRestoring restoreErr])
                | Some (None, w4) \<Rightarrow> Some w4)
           | (None, w3) \<Rightarrow> Some (println w3 (success_lines E w (fs w3) c))))"
proof (cases "readMetadata E (fs w) (c @ [''db'', ''metadata.json''])")
  case (Inl err)
  then show ?thesis
    by (simp add: main_def refresh_intro_def success_lines_def println_def
        split: option.splits prod.splits sum.splits)
next
  case (Inr m)
  with assms have "NextUpdate m < time_Now E (ticks w)" by (simp add: refresh_due_def)
  with Inr show ?thesis
    by (simp add: main_def refresh_intro_def success_lines_def println_def now_def
        split: option.splits prod.splits sum.splits)
qed

lemma main_not_due:
  assumes "\<not> refresh_due E w c"
  shows "\<exists>m. readMetadata E (fs w) (c @ [''db'', ''metadata.json'']) = Inr m \<and>
           main E n w c = Some (println (snd (now E w)) [UpToDate, NextUpdateAt (NextUpdate m)])"
  using assms
  by (auto simp add: refresh_due_def main_def now_def split: sum.splits)

lemma run_world:
  "runTrivyUpdateCommand E w c =
     (map_option (\<lambda>stderr. Wrap ''trivy command failed'' (ExitError stderr)) (fst (trivy E c (fs w))),
      w\<lparr>calls := calls w @ [CallTrivy], fs := snd (trivy E c (fs w))\<rparr>)"
  by (simp add: runTrivyUpdateCommand_def Let_def split: prod.splits option.splits)





lemma backup_intro':
  "backupTrivyDB n w c = Some (e, wb) \<Longrightarrow>
     backupTrivyDB n (refresh_intro E w c) c =
       Some (e, (refresh_intro E w c)\<lparr>calls := calls w @ [CallBackup], fs := fs wb,
                  out := out (refresh_intro E w c) @ (if e = None then [BackedUp c backupDir] else [])\<rparr>)"
  using backup_cong [of n w c e wb "refresh_intro E w c"] by simp






theorem C8_silent_reread_counterexample:
  "refresh_due (demo_env clock_due tool_noop) (world0 fs_boot) cache0 \<and>
   fst (trivy (demo_env clock_due tool_noop) cache0
          (fs (snd (the (backupTrivyDB 3 (world0 fs_boot) cache0))))) = None \<and>
   main (demo_env clock_due tool_noop) 3 (world0 fs_boot) cache0 =
     Some (the (main (demo_env clock_due tool_noop) 3 (world0 fs_boot) cache0)) \<and>
   readMetadata (demo_env clock_due tool_noop)
     (fs (the (main (demo_env clock_due tool_noop) 3 (world0 fs_boot) cache0)))
     (cache0 @ [''db'', ''metadata.json'']) = Inl (Wrap ''failed to read metadata file'' (Os ENOENT)) \<and>
   out (the (main (demo_env clock_due tool_noop) 3 (world0 fs_boot) cache0)) =
     [ErrorReadingMetadata (Wrap ''failed to read metadata file'' (Os ENOENT)), ExecutingDownload,
      BackedUp cache0 backupDir] \<and>
   calls (the (main (demo_env clock_due tool_noop) 3 (world0 fs_boot) cache0)) =
     [CallBackup, CallTrivy]"
  by code_simp

text \<open>
  Claim C8, amended. When a refresh is due, the backup succeeds and the tool succeeds,
  \<^verbatim>\<open>main\<close> reads the metadata again and prints its \<open>NextUpdate\<close>; when this read fails it
  prints nothing about it, as the run above shows. In both cases there is no
  restore and the file system is the one the tool left.
\<close>

theorem C8_success_rereads_metadata:
  assumes due: "refresh_due E w cacheDir"
    and bk: "backupTrivyDB n w cacheDir = Some (None, wb)"
    and tool: "trivy E cacheDir (fs wb) = (None, fs3)"
  shows "\<exists>w'. main E n w cacheDir = Some w' \<and> fs w' = fs3 \<and>
           calls w' = calls w @ [CallBackup, CallTrivy] \<and>
           out w' = out (refresh_intro E w cacheDir) @ [BackedUp cacheDir backupDir] @
             (case readMetadata E (fs w) (cacheDir @ [''db'', ''metadata.json'']) of
                Inl err \<Rightarrow> [] | Inr metadata \<Rightarrow> [UpdateComplete]) @
             (case readMetadata E fs3 (cacheDir @ [''db'', ''metadata.json'']) of
                Inl err \<Rightarrow> [] | Inr newMetadata \<Rightarrow> [NextUpdateAt (NextUpdate newMetadata)])"
  using backup_intro' [OF bk, of E] tool
  by (simp add: main_refresh [OF due] run_world println_def success_lines_def)

theorem C8_success_witness:
  "refresh_due (demo_env clock_due tool_ok) (world0 fs_due) cache0 \<and>
   backupTrivyDB 3 (world0 fs_due) cache0 =
     Some (None, snd (the (backupTrivyDB 3 (world0 fs_due) cache0))) \<and>
   trivy (demo_env clock_due tool_ok) cache0 (fs (snd (the (backupTrivyDB 3 (world0 fs_due) cache0)))) =
     (None, snd (tool_ok cache0 (fs (snd (the (backupTrivyDB 3 (world0 fs_due) cache0)))))) \<and>
   (\<exists>w'. main (demo_env clock_due tool_ok) 3 (world0 fs_due) cache0 = Some w' \<and>
      calls w' = [CallBackup, CallTrivy] \<and>
      out w' = [UpdatingDB, BackedUp cache0 backupDir, UpdateComplete, NextUpdateAt (NextUpdate rec3)])"
proof -
  let ?E = "demo_env clock_due tool_ok" and ?w = "world0 fs_due"
  let ?wb = "snd (the (backupTrivyDB 3 ?w cache0))"
  let ?F = "snd (tool_ok cache0 (fs ?wb))"
  have h1: "refresh_due ?E ?w cache0" by code_simp
  have h2: "backupTrivyDB 3 ?w cache0 = Some (None, ?wb)" by code_simp
  have h3: "trivy ?E cache0 (fs ?wb) = (None, ?F)" by (simp add: demo_env_def tool_ok_def)
  have o: "out (refresh_intro ?E ?w cache0) = [UpdatingDB]" by code_simp
  have r0: "readMetadata ?E (fs ?w) (cache0 @ [''db'', ''metadata.json'']) = Inr rec1" by code_simp
  have r1: "readMetadata ?E ?F (cache0 @ [''db'', ''metadata.json'']) = Inr rec3" by code_simp
  have c: "calls ?w = []" by (simp add: world0_def)
  from C8_success_rereads_metadata [OF h1 h2 h3]
  have "\<exists>w'. main ?E 3 ?w cache0 = Some w' \<and> calls w' = [CallBackup, CallTrivy] \<and>
      out w' = [UpdatingDB, BackedUp cache0 backupDir, UpdateComplete, NextUpdateAt (NextUpdate rec3)]"
    unfolding o r0 r1 c by auto
  with h1 h2 h3 show ?thesis by blast
qed











end
